theory Spec2Isabelle
  imports Complex_Main "HOL-Library.Char_ord" "HOL-Library.List_Lexorder" "HOL-Library.Multiset"
begin

section \<open>The values of the comparator\<close>

text \<open>
  The structural equality function \<open>equal\<close> takes two arbitrary JavaScript values.
  A Number is NaN, an infinity or a finite value; finite values are kept as rationals
  (every double is one), and \<open>+0\<close> and \<open>-0\<close> are the same value, which no operator
  used by \<open>equal\<close> tells apart.
\<close>

datatype jsnum = NaN | PosInf | NegInf | Fin rat

datatype prim =
    Undefined
  | Null
  | Bool bool
  | Num jsnum
  | BigInt int
  | Str string
  | Symbol nat

text \<open>
  An object has an identity (its reference), the primitive that \<open>ToPrimitive\<close> gives for
  it (what its \<open>valueOf\<close>/\<open>toString\<close> return, used by \<open>==\<close> against a primitive), its
  internal data, and its own enumerable named properties in insertion order. Values are
  trees, hence acyclic; two occurrences of one reference stand for one shared object.
  Boxed primitives, sparse arrays and objects without a constructor are outside the model.
\<close>

datatype 'v slots =
    Plain string
  | DateData jsnum
  | RegExpData string string
  | ArrayData "'v list"
  | TypedArrayData string "jsnum list"
  | MapData "('v \<times> 'v) list"
  | SetData "'v list"
  | FunctionData
  | ErrorData string prim

datatype jsval =
    Prim prim
  | Obj nat prim "jsval slots" "(string \<times> jsval) list"

datatype error = TypeError | Unmodelled

record config =
  allow_type_coercion :: bool
  check_all_properties :: bool

definition default_config :: config where
  "default_config = \<lparr>allow_type_coercion = True, check_all_properties = False\<rparr>"

section \<open>The operators of the language\<close>

subsection \<open>Strict equality and SameValueZero\<close>

fun strict_eq_num :: "jsnum \<Rightarrow> jsnum \<Rightarrow> bool" where
  "strict_eq_num NaN y = False"
| "strict_eq_num x NaN = False"
| "strict_eq_num x y = (x = y)"

fun strict_eq_prim :: "prim \<Rightarrow> prim \<Rightarrow> bool" where
  "strict_eq_prim (Num x) (Num y) = strict_eq_num x y"
| "strict_eq_prim p q = (p = q)"

fun strict_eq :: "jsval \<Rightarrow> jsval \<Rightarrow> bool" where
  "strict_eq (Prim p) (Prim q) = strict_eq_prim p q"
| "strict_eq (Obj r _ _ _) (Obj r' _ _ _) = (r = r')"
| "strict_eq _ _ = False"

fun same_value_zero :: "jsval \<Rightarrow> jsval \<Rightarrow> bool" where
  "same_value_zero (Prim (Num NaN)) (Prim (Num NaN)) = True"
| "same_value_zero x y = strict_eq x y"

subsection \<open>The Number value of a rational\<close>

text \<open>
  A numeric string denotes a rational, which is rounded to the nearest double, ties to
  the even significand: the exponent is that of the value, but not below that of the
  denormals, the significand is rounded to an integer, and a result of 2 to the
  power 1024 or more is an infinity.
\<close>

fun bit_length :: "nat \<Rightarrow> nat" where
  "bit_length n = (if n = 0 then 0 else Suc (bit_length (n div 2)))"

declare bit_length.simps [simp del]

definition pow2 :: "int \<Rightarrow> rat" where
  "pow2 e = (if 0 \<le> e then 2 ^ nat e else 1 / 2 ^ nat (- e))"

definition floor_log2 :: "rat \<Rightarrow> int" where
  "floor_log2 q =
     (let (a, b) = quotient_of q;
          k = int (bit_length (nat a)) - int (bit_length (nat b))
      in if pow2 k \<le> q then k else k - 1)"

definition round_half_even :: "rat \<Rightarrow> int" where
  "round_half_even q =
     (let n = \<lfloor>q\<rfloor>; d = q - of_int n
      in if d < 1 / 2 then n else if 1 / 2 < d then n + 1
         else if even n then n else n + 1)"

definition nearest_double :: "rat \<Rightarrow> jsnum" where
  "nearest_double q =
     (let e = max (floor_log2 q - 52) (- 1074);
          v = of_int (round_half_even (q / pow2 e)) * pow2 e
      in if pow2 1024 \<le> v then PosInf else Fin v)"

definition number_value :: "rat \<Rightarrow> jsnum" where
  "number_value q =
     (if q = 0 then Fin 0
      else if 0 < q then nearest_double q
      else (case nearest_double (- q) of Fin v \<Rightarrow> Fin (- v) | _ \<Rightarrow> NegInf))"

subsection \<open>Conversions between strings and numbers\<close>

text \<open>
  A string is a sequence of code units below 256. \<open>StringToNumber\<close> strips white
  space and line terminators from both ends; the empty string is 0. What is left is a
  binary, octal or hexadecimal integer with its prefix and no sign, or an optionally
  signed \<open>Infinity\<close>, or an optionally signed decimal with an optional fraction and an
  optional exponent; anything else is NaN. \<open>StringToBigInt\<close> accepts the empty string,
  the prefixed integers and optionally signed decimal digits.
\<close>

definition is_white :: "char \<Rightarrow> bool" where
  "is_white ch = (of_char ch \<in> set [9, 10, 11, 12, 13, 32, 160 :: nat])"

definition trim :: "string \<Rightarrow> string" where
  "trim s = rev (dropWhile is_white (rev (dropWhile is_white s)))"

definition digit_of :: "char \<Rightarrow> nat option" where
  "digit_of ch =
     (let n = of_char ch :: nat
      in if 48 \<le> n \<and> n \<le> 57 then Some (n - 48)
         else if 97 \<le> n \<and> n \<le> 102 then Some (n - 87)
         else if 65 \<le> n \<and> n \<le> 70 then Some (n - 55)
         else None)"

definition is_digit :: "nat \<Rightarrow> char \<Rightarrow> bool" where
  "is_digit radix ch = (case digit_of ch of Some d \<Rightarrow> d < radix | None \<Rightarrow> False)"

definition digits_value :: "nat \<Rightarrow> string \<Rightarrow> nat" where
  "digits_value radix s =
     foldl (\<lambda>n ch. radix * n + (case digit_of ch of Some d \<Rightarrow> d | None \<Rightarrow> 0)) 0 s"

definition digits :: "nat \<Rightarrow> string \<Rightarrow> nat option" where
  "digits radix s =
     (if s \<noteq> [] \<and> list_all (is_digit radix) s then Some (digits_value radix s) else None)"

fun non_decimal_integer :: "string \<Rightarrow> nat option" where
  "non_decimal_integer (z # x # ds) =
     (if z \<noteq> CHR ''0'' then None
      else if x = CHR ''x'' \<or> x = CHR ''X'' then digits 16 ds
      else if x = CHR ''o'' \<or> x = CHR ''O'' then digits 8 ds
      else if x = CHR ''b'' \<or> x = CHR ''B'' then digits 2 ds
      else None)"
| "non_decimal_integer s = None"

fun sign_and_rest :: "string \<Rightarrow> bool \<times> string" where
  "sign_and_rest (ch # s) =
     (if ch = CHR ''-'' then (True, s) else if ch = CHR ''+'' then (False, s)
      else (False, ch # s))"
| "sign_and_rest [] = (False, [])"

definition signed_integer :: "string \<Rightarrow> int option" where
  "signed_integer s =
     (let (minus, ds) = sign_and_rest s
      in case digits 10 ds of
           Some n \<Rightarrow> Some (if minus then - int n else int n)
         | None \<Rightarrow> None)"

definition pow10 :: "int \<Rightarrow> rat" where
  "pow10 e = (if 0 \<le> e then 10 ^ nat e else 1 / 10 ^ nat (- e))"

definition unsigned_decimal :: "string \<Rightarrow> rat option" where
  "unsigned_decimal s =
     (let ip = takeWhile (is_digit 10) s;
          r1 = dropWhile (is_digit 10) s;
          fp = (case r1 of ch # t \<Rightarrow> if ch = CHR ''.'' then takeWhile (is_digit 10) t else [] | [] \<Rightarrow> []);
          r2 = (case r1 of ch # t \<Rightarrow> if ch = CHR ''.'' then dropWhile (is_digit 10) t else r1 | [] \<Rightarrow> []);
          m = of_nat (digits_value 10 ip) + of_nat (digits_value 10 fp) / 10 ^ length fp
      in if ip = [] \<and> fp = [] then None
         else (case r2 of
                 [] \<Rightarrow> Some m
               | ch # t \<Rightarrow>
                   if ch = CHR ''e'' \<or> ch = CHR ''E''
                   then (case signed_integer t of Some x \<Rightarrow> Some (m * pow10 x) | None \<Rightarrow> None)
                   else None))"

definition string_to_number :: "string \<Rightarrow> jsnum" where
  "string_to_number s =
     (let t = trim s
      in if t = [] then Fin 0
         else case non_decimal_integer t of
             Some n \<Rightarrow> number_value (of_nat n)
           | None \<Rightarrow>
               (let (minus, u) = sign_and_rest t
                in if u = ''Infinity'' then (if minus then NegInf else PosInf)
                   else case unsigned_decimal u of
                       Some q \<Rightarrow> number_value (if minus then - q else q)
                     | None \<Rightarrow> NaN))"

definition string_to_int :: "string \<Rightarrow> int option" where
  "string_to_int s =
     (let t = trim s
      in if t = [] then Some 0
         else case non_decimal_integer t of
             Some n \<Rightarrow> Some (int n)
           | None \<Rightarrow> signed_integer t)"

fun show_nat :: "nat \<Rightarrow> string" where
  "show_nat n =
     (if n < 10 then [char_of (48 + n)]
      else show_nat (n div 10) @ [char_of (48 + n mod 10)])"

declare show_nat.simps [simp del]

subsection \<open>Loose equality\<close>

text \<open>
  \<open>IsLooselyEqual\<close> on primitives of different types, Booleans already converted to
  numbers: null and undefined equal each other only, a string is converted to the
  numeric type of the other side, and a Number equals a BigInt of the same value.
\<close>

fun loose_eq_mixed :: "prim \<Rightarrow> prim \<Rightarrow> bool" where
  "loose_eq_mixed Undefined Null = True"
| "loose_eq_mixed Null Undefined = True"
| "loose_eq_mixed (Num x) (Str s) = strict_eq_num x (string_to_number s)"
| "loose_eq_mixed (Str s) (Num y) = strict_eq_num (string_to_number s) y"
| "loose_eq_mixed (BigInt i) (Str s) = (string_to_int s = Some i)"
| "loose_eq_mixed (Str s) (BigInt j) = (string_to_int s = Some j)"
| "loose_eq_mixed (BigInt i) (Num y) = (y = Fin (of_int i))"
| "loose_eq_mixed (Num x) (BigInt j) = (x = Fin (of_int j))"
| "loose_eq_mixed (Num x) (Num y) = strict_eq_num x y"
| "loose_eq_mixed p q = False"

definition bool_to_number :: "prim \<Rightarrow> prim" where
  "bool_to_number p =
     (case p of Bool t \<Rightarrow> Num (Fin (if t then 1 else 0)) | _ \<Rightarrow> p)"

definition same_type :: "prim \<Rightarrow> prim \<Rightarrow> bool" where
  "same_type p q =
     (case (p, q) of
        (Undefined, Undefined) \<Rightarrow> True
      | (Null, Null) \<Rightarrow> True
      | (Bool _, Bool _) \<Rightarrow> True
      | (Num _, Num _) \<Rightarrow> True
      | (BigInt _, BigInt _) \<Rightarrow> True
      | (Str _, Str _) \<Rightarrow> True
      | (Symbol _, Symbol _) \<Rightarrow> True
      | _ \<Rightarrow> False)"

definition loose_eq_prim :: "prim \<Rightarrow> prim \<Rightarrow> bool" where
  "loose_eq_prim p q =
     (if same_type p q then strict_eq_prim p q
      else loose_eq_mixed (bool_to_number p) (bool_to_number q))"

text \<open>
  Two objects are loosely equal when they are the same object; an object against a
  primitive is converted by \<open>ToPrimitive\<close> first, and is never equal to null or
  undefined.
\<close>

definition nullish :: "prim \<Rightarrow> bool" where
  "nullish p = (p = Undefined \<or> p = Null)"

fun loose_eq :: "jsval \<Rightarrow> jsval \<Rightarrow> bool" where
  "loose_eq (Prim p) (Prim q) = loose_eq_prim p q"
| "loose_eq (Obj r _ _ _) (Obj r' _ _ _) = (r = r')"
| "loose_eq (Obj _ tp _ _) (Prim q) = (\<not> nullish q \<and> loose_eq_prim tp q)"
| "loose_eq (Prim p) (Obj _ tp _ _) = (\<not> nullish p \<and> loose_eq_prim p tp)"

section \<open>Reading objects\<close>

text \<open>
  \<open>get_type\<close> reads \<open>a.constructor.name\<close>; null and undefined have no properties, and
  reading one raises. The name is that of the class of the value: an own property that
  hides \<open>constructor\<close> is not modelled.
\<close>

fun get_type :: "jsval \<Rightarrow> error + string" where
  "get_type (Prim Undefined) = Inl TypeError"
| "get_type (Prim Null) = Inl TypeError"
| "get_type (Prim (Bool _)) = Inr ''Boolean''"
| "get_type (Prim (Num _)) = Inr ''Number''"
| "get_type (Prim (BigInt _)) = Inr ''BigInt''"
| "get_type (Prim (Str _)) = Inr ''String''"
| "get_type (Prim (Symbol _)) = Inr ''Symbol''"
| "get_type (Obj _ _ (Plain cname) _) = Inr cname"
| "get_type (Obj _ _ (DateData _) _) = Inr ''Date''"
| "get_type (Obj _ _ (RegExpData _ _) _) = Inr ''RegExp''"
| "get_type (Obj _ _ (ArrayData _) _) = Inr ''Array''"
| "get_type (Obj _ _ (TypedArrayData cname _) _) = Inr cname"
| "get_type (Obj _ _ (MapData _) _) = Inr ''Map''"
| "get_type (Obj _ _ (SetData _) _) = Inr ''Set''"
| "get_type (Obj _ _ FunctionData _) = Inr ''Function''"
| "get_type (Obj _ _ (ErrorData cname _) _) = Inr cname"

text \<open>
  The indexed elements of an array or typed array (\<open>a.length\<close>, \<open>a[i]\<close>), and the own
  enumerable properties that \<open>Object.keys\<close> lists: the indices first, then the named ones.
\<close>

fun elements :: "jsval \<Rightarrow> jsval list option" where
  "elements (Obj _ _ (ArrayData xs) _) = Some xs"
| "elements (Obj _ _ (TypedArrayData _ ns) _) = Some (map (\<lambda>n. Prim (Num n)) ns)"
| "elements _ = None"

definition indexed :: "jsval list \<Rightarrow> (string \<times> jsval) list" where
  "indexed xs = zip (map show_nat [0..<length xs]) xs"

fun own_props :: "jsval \<Rightarrow> (string \<times> jsval) list" where
  "own_props (Obj _ _ (ArrayData xs) ps) = indexed xs @ ps"
| "own_props (Obj _ _ (TypedArrayData _ ns) ps) = indexed (map (\<lambda>n. Prim (Num n)) ns) @ ps"
| "own_props (Obj _ _ _ ps) = ps"
| "own_props (Prim _) = []"

text \<open>
  \<open>Object.keys\<close> raises on null and undefined. A primitive string would list its
  character positions; the comparator never asks, since strings have their own test.
\<close>

fun Object_keys :: "jsval \<Rightarrow> error + string list" where
  "Object_keys (Prim Undefined) = Inl TypeError"
| "Object_keys (Prim Null) = Inl TypeError"
| "Object_keys (Prim (Str _)) = Inl Unmodelled"
| "Object_keys v = Inr (map fst (own_props v))"

definition get_prop :: "jsval \<Rightarrow> string \<Rightarrow> jsval" where
  "get_prop v k = (case map_of (own_props v) k of Some x \<Rightarrow> x | None \<Rightarrow> Prim Undefined)"

fun Map_entries :: "jsval \<Rightarrow> (jsval \<times> jsval) list option" where
  "Map_entries (Obj _ _ (MapData es) _) = Some es"
| "Map_entries _ = None"

fun Map_get :: "(jsval \<times> jsval) list \<Rightarrow> jsval \<Rightarrow> jsval" where
  "Map_get [] k = Prim Undefined"
| "Map_get ((k', v) # es) k = (if same_value_zero k' k then v else Map_get es k)"

fun Set_items :: "jsval \<Rightarrow> jsval list option" where
  "Set_items (Obj _ _ (SetData xs) _) = Some xs"
| "Set_items _ = None"

definition Set_has :: "jsval list \<Rightarrow> jsval \<Rightarrow> bool" where
  "Set_has xs x = list_ex (\<lambda>y. same_value_zero y x) xs"

text \<open>\<open>b.indexOf(x)\<close> searches by strict equality; \<open>b.splice(idx, 1)\<close> removes one element.\<close>

fun indexOf :: "jsval list \<Rightarrow> jsval \<Rightarrow> nat option" where
  "indexOf [] x = None"
| "indexOf (y # ys) x =
     (if strict_eq y x then Some 0 else map_option Suc (indexOf ys x))"

definition splice1 :: "'a list \<Rightarrow> nat \<Rightarrow> 'a list" where
  "splice1 xs idx = take idx xs @ drop (Suc idx) xs"

section \<open>The collection helpers\<close>

fun unsorted_identical :: "jsval list \<Rightarrow> jsval list \<Rightarrow> bool" where
  "unsorted_identical [] b = True"
| "unsorted_identical (a_item # a) b =
     (case indexOf b a_item of
        None \<Rightarrow> False
      | Some idx \<Rightarrow> unsorted_identical a (splice1 b idx))"

definition sorted_identical :: "string list \<Rightarrow> string list \<Rightarrow> bool" where
  "sorted_identical a b =
     (if length a \<noteq> length b then False
      else list_all (\<lambda>i. a ! i = b ! i) [0..<length a])"

section \<open>The table of tests\<close>

datatype category_test =
    TNumber | TString | TDate | TRegExp | TArray | TObject | TMap | TSet
  | TSymbol | TFunction | TError

definition equal_test_literal :: "(string \<times> category_test) list" where
  "equal_test_literal =
     [(''Number'', TNumber), (''String'', TString), (''Date'', TDate),
      (''RegExp'', TRegExp), (''Array'', TArray), (''Object'', TObject),
      (''Map'', TMap), (''Set'', TSet), (''Symbol'', TSymbol),
      (''Function'', TFunction), (''Error'', TError)]"

definition typed_array_names :: "string list" where
  "typed_array_names =
     [''Int8Array'', ''Uint8Array'', ''Uint8ClampedArray'', ''Int16Array'',
      ''Uint16Array'', ''Int32Array'', ''Uint32Array'', ''Float32Array'',
      ''Float64Array'']"

text \<open>
  \<open>for (let t in xs)\<close> runs \<open>t\<close> over the property names of the array \<open>xs\<close>, its indices
  as strings, not over its elements. The loop after the table stores the Array test
  under each such \<open>t\<close>.
\<close>

definition for_in :: "'a list \<Rightarrow> string list" where
  "for_in xs = map show_nat [0..<length xs]"

definition equal_test :: "string \<Rightarrow> category_test option" where
  "equal_test =
     foldl (\<lambda>tbl t. tbl(t := tbl ''Array'')) (map_of equal_test_literal)
       (for_in typed_array_names)"

text \<open>
  The table is an object literal, so \<open>equal_test[a_cons]\<close> also finds the members it
  inherits from \<open>Object.prototype\<close>. For a class of one of these names \<open>equal\<close> calls
  the inherited member instead of a test; what that returns is not modelled.
\<close>

definition Object_prototype_names :: "string list" where
  "Object_prototype_names =
     [''constructor'', ''hasOwnProperty'', ''isPrototypeOf'', ''propertyIsEnumerable'',
      ''toLocaleString'', ''toString'', ''valueOf'', ''__proto__'', ''__defineGetter__'',
      ''__defineSetter__'', ''__lookupGetter__'', ''__lookupSetter__'']"

section \<open>The comparator\<close>

text \<open>
  A \<open>for\<close> loop whose body returns false at the first failing test and which returns
  true when it runs out; a raise in a test ends the loop with that error.
\<close>

fun all_m :: "('a \<Rightarrow> error + bool) \<Rightarrow> 'a list \<Rightarrow> error + bool" where
  "all_m f [] = Inr True"
| "all_m f (x # xs) =
     (case f x of
        Inl e \<Rightarrow> Inl e
      | Inr False \<Rightarrow> Inr False
      | Inr True \<Rightarrow> all_m f xs)"

lemma all_m_cong [fundef_cong]:
  "xs = ys \<Longrightarrow> (\<And>x. x \<in> set ys \<Longrightarrow> f x = g x) \<Longrightarrow> all_m f xs = all_m g ys"
  by (induction ys arbitrary: xs) (auto split: sum.splits bool.splits)

subsection \<open>The tests that do not recurse\<close>

text \<open>
  Each test reads the internal data its category has. An operand of another shape under
  the same constructor name (a user class named like a built-in one) is not modelled.
\<close>

definition equal_test_Number :: "jsval \<Rightarrow> jsval \<Rightarrow> error + bool" where
  "equal_test_Number a b =
     (case (a, b) of
        (Prim (Num x), Prim (Num y)) \<Rightarrow> Inr (x = NaN \<and> y = NaN)
      | _ \<Rightarrow> Inl Unmodelled)"

definition equal_test_String :: "jsval \<Rightarrow> jsval \<Rightarrow> error + bool" where
  "equal_test_String a b = Inr False"

text \<open>\<open>a - b\<close> on the time values of two dates; an invalid date has the time value NaN.\<close>

fun minus_num :: "jsnum \<Rightarrow> jsnum \<Rightarrow> jsnum" where
  "minus_num (Fin x) (Fin y) = Fin (x - y)"
| "minus_num (Fin x) PosInf = NegInf"
| "minus_num (Fin x) NegInf = PosInf"
| "minus_num PosInf (Fin y) = PosInf"
| "minus_num NegInf (Fin y) = NegInf"
| "minus_num PosInf NegInf = PosInf"
| "minus_num NegInf PosInf = NegInf"
| "minus_num x y = NaN"

definition equal_test_Date :: "jsval \<Rightarrow> jsval \<Rightarrow> error + bool" where
  "equal_test_Date a b =
     (case (a, b) of
        (Obj _ _ (DateData s) _, Obj _ _ (DateData t) _) \<Rightarrow>
          Inr (loose_eq_prim (Num (minus_num s t)) (Num (Fin 0)))
      | _ \<Rightarrow> Inl Unmodelled)"

definition equal_test_RegExp :: "jsval \<Rightarrow> jsval \<Rightarrow> error + bool" where
  "equal_test_RegExp a b =
     (case (a, b) of
        (Obj _ _ (RegExpData src fl) _, Obj _ _ (RegExpData src' fl') _) \<Rightarrow>
          Inr (src = src' \<and> fl = fl')
      | _ \<Rightarrow> Inl Unmodelled)"

definition equal_test_Symbol :: "jsval \<Rightarrow> jsval \<Rightarrow> error + bool" where
  "equal_test_Symbol a b = Inr (strict_eq a b)"

definition equal_test_Function :: "jsval \<Rightarrow> jsval \<Rightarrow> error + bool" where
  "equal_test_Function a b = Inr (strict_eq a b)"

definition equal_test_Error :: "jsval \<Rightarrow> jsval \<Rightarrow> error + bool" where
  "equal_test_Error a b =
     (case (a, b) of
        (Obj _ _ (ErrorData _ m) _, Obj _ _ (ErrorData _ m') _) \<Rightarrow> Inr (loose_eq_prim m m')
      | _ \<Rightarrow> Inl Unmodelled)"

subsection \<open>The parts of a value are smaller than the value\<close>

lemma size_list_member: "x \<in> set xs \<Longrightarrow> f x \<le> size_list f xs"
  by (induction xs) auto

lemma size_map_of_value:
  "map_of ps k = Some v \<Longrightarrow> size v \<le> size_list (size_prod (\<lambda>x. 0) size) ps"
proof -
  assume "map_of ps k = Some v"
  then have "(k, v) \<in> set ps" by (rule map_of_SomeD)
  then have "size_prod (\<lambda>x. 0) size (k, v) \<le> size_list (size_prod (\<lambda>x. 0) size) ps"
    by (rule size_list_member)
  then show ?thesis by simp
qed

lemma size_indexed_value:
  "map_of (indexed xs) k = Some v \<Longrightarrow> size v \<le> size_list size xs"
proof -
  assume "map_of (indexed xs) k = Some v"
  then have "(k, v) \<in> set (indexed xs)" by (rule map_of_SomeD)
  then have "v \<in> set xs" unfolding indexed_def by (rule set_zip_rightD)
  then show ?thesis by (rule size_list_member)
qed

lemma size_elements:
  "elements a = Some xs \<Longrightarrow> i < length xs \<Longrightarrow> size (xs ! i) < size a"
proof (induction a rule: elements.induct)
  case (1 r tp xs' ps)
  then have "xs ! i \<in> set xs'" by simp
  then have "size (xs ! i) \<le> size_list size xs'" by (rule size_list_member)
  then show ?case by simp
qed auto

lemma size_get_prop_Obj: "size (get_prop (Obj r tp d ps) k) < size (Obj r tp d ps)"
proof (cases "map_of (own_props (Obj r tp d ps)) k")
  case None
  then show ?thesis by (simp add: get_prop_def)
next
  case (Some v)
  have "size v < size (Obj r tp d ps)"
  proof (cases d)
    case (ArrayData xs)
    with Some show ?thesis
      by (auto simp: map_add_Some_iff dest!: size_map_of_value size_indexed_value)
  next
    case (TypedArrayData cname ns)
    with Some have "map_of ps k = Some v \<or> (\<exists>n. v = Prim (Num n))"
      by (auto simp: map_add_Some_iff indexed_def dest!: map_of_SomeD set_zip_rightD)
    then show ?thesis
      by (auto dest!: size_map_of_value)
  qed (use Some in \<open>auto dest!: size_map_of_value\<close>)
  with Some show ?thesis by (simp add: get_prop_def)
qed

lemma size_get_prop:
  "Object_keys a = Inr ks \<Longrightarrow> k \<in> set ks \<Longrightarrow> size (get_prop a k) < size a"
  by (cases a) (auto simp: size_get_prop_Obj simp del: jsval.size elim!: Object_keys.elims)

lemma size_Map_get_le:
  "size (Map_get es k) \<le> size_list (size_prod size size) es"
  by (induction es k rule: Map_get.induct) auto

lemma size_Map_get:
  "Map_entries a = Some es \<Longrightarrow> size (Map_get es k) < size a"
  using size_Map_get_le [of es k]
  by (induction a rule: Map_entries.induct) auto

subsection \<open>\<open>equal\<close> and the tests that call it\<close>

text \<open>
  The configuration flags are properties of the function \<open>equal\<close>, read at each test;
  here they are the first argument.
\<close>

function (sequential) equal :: "config \<Rightarrow> jsval \<Rightarrow> jsval \<Rightarrow> error + bool"
  and equal_test_Array :: "config \<Rightarrow> jsval \<Rightarrow> jsval \<Rightarrow> error + bool"
  and equal_test_Object :: "config \<Rightarrow> jsval \<Rightarrow> jsval \<Rightarrow> error + bool"
  and equal_test_Map :: "config \<Rightarrow> jsval \<Rightarrow> jsval \<Rightarrow> error + bool"
  and equal_test_Set :: "config \<Rightarrow> jsval \<Rightarrow> jsval \<Rightarrow> error + bool"
where
  "equal c a b =
     (if strict_eq a b then Inr True
      else case get_type a of Inl e \<Rightarrow> Inl e | Inr a_cons \<Rightarrow>
           case get_type b of Inl e \<Rightarrow> Inl e | Inr b_cons \<Rightarrow>
        if loose_eq a b \<and>
           (allow_type_coercion c \<or> a_cons = b_cons \<or>
            (a_cons \<noteq> ''String'' \<and> b_cons \<noteq> ''String''))
        then Inr True
        else if a_cons \<noteq> b_cons then Inr False
        else if a_cons \<in> set Object_prototype_names then Inl Unmodelled
        else case equal_test a_cons of
            Some TNumber \<Rightarrow> equal_test_Number a b
          | Some TString \<Rightarrow> equal_test_String a b
          | Some TDate \<Rightarrow> equal_test_Date a b
          | Some TRegExp \<Rightarrow> equal_test_RegExp a b
          | Some TArray \<Rightarrow> equal_test_Array c a b
          | Some TObject \<Rightarrow> equal_test_Object c a b
          | Some TMap \<Rightarrow> equal_test_Map c a b
          | Some TSet \<Rightarrow> equal_test_Set c a b
          | Some TSymbol \<Rightarrow> equal_test_Symbol a b
          | Some TFunction \<Rightarrow> equal_test_Function a b
          | Some TError \<Rightarrow> equal_test_Error a b
          | None \<Rightarrow> equal_test_Object c a b)"
| "equal_test_Array c a b =
     (case elements a of None \<Rightarrow> Inl Unmodelled | Some xs \<Rightarrow>
      case elements b of None \<Rightarrow> Inl Unmodelled | Some ys \<Rightarrow>
        if length xs \<noteq> length ys then Inr False
        else if check_all_properties c then equal_test_Object c a b
        else all_m (\<lambda>i. equal c (xs ! i) (ys ! i)) [0..<length xs])"
| "equal_test_Object c a b =
     (case Object_keys a of Inl e \<Rightarrow> Inl e | Inr ka \<Rightarrow>
      case Object_keys b of Inl e \<Rightarrow> Inl e | Inr kb \<Rightarrow>
        let a_keys = sort ka; b_keys = sort kb in
        if \<not> sorted_identical a_keys b_keys then Inr False
        else all_m (\<lambda>k. equal c (get_prop a k) (get_prop b k)) a_keys)"
| "equal_test_Map c a b =
     (case Map_entries a of None \<Rightarrow> Inl Unmodelled | Some ea \<Rightarrow>
      case Map_entries b of None \<Rightarrow> Inl Unmodelled | Some eb \<Rightarrow>
        if length ea \<noteq> length eb then Inr False
        else case (if check_all_properties c then equal_test_Object c a b else Inr True) of
            Inl e \<Rightarrow> Inl e
          | Inr False \<Rightarrow> Inr False
          | Inr True \<Rightarrow>
              let a_keys = map fst ea in
              if \<not> unsorted_identical a_keys (map fst eb) then Inr False
              else all_m (\<lambda>k. equal c (Map_get ea k) (Map_get eb k)) a_keys)"
| "equal_test_Set c a b =
     (case Set_items a of None \<Rightarrow> Inl Unmodelled | Some xs \<Rightarrow>
      case Set_items b of None \<Rightarrow> Inl Unmodelled | Some ys \<Rightarrow>
        if length xs \<noteq> length ys then Inr False
        else case (if check_all_properties c then equal_test_Object c a b else Inr True) of
            Inl e \<Rightarrow> Inl e
          | Inr False \<Rightarrow> Inr False
          | Inr True \<Rightarrow> Inr (list_all (\<lambda>a_item. Set_has ys a_item) xs))"
  by pat_completeness auto

termination
  apply (relation "measure (\<lambda>x. case x of
      Inl (Inl (c, a, b)) \<Rightarrow> 3 * size a + 2
    | Inl (Inr (c, a, b)) \<Rightarrow> 3 * size a + 1
    | Inr (Inl (c, a, b)) \<Rightarrow> 3 * size a
    | Inr (Inr (Inl (c, a, b))) \<Rightarrow> 3 * size a + 1
    | Inr (Inr (Inr (c, a, b))) \<Rightarrow> 3 * size a + 1)")
  apply simp_all
  subgoal for c a b xs ys i
    using size_elements [of a xs i] by simp
  subgoal for a b ka kb a_keys b_keys k
    using size_get_prop [of a ka k] by simp
  subgoal for c a b ea eb t a_keys k
    using size_Map_get [of a ea k] by simp
  done

declare equal.simps [simp del] equal_test_Array.simps [simp del]
  equal_test_Object.simps [simp del] equal_test_Map.simps [simp del]
  equal_test_Set.simps [simp del]

section \<open>Well-formed values\<close>

text \<open>
  What \<open>===\<close> and SameValueZero compare: a primitive by its value, an object by its
  reference. A Map holds no two keys, and a Set no two elements, that SameValueZero
  identifies; a value is well formed when this is so in it and in all its parts.
\<close>

fun ident :: "jsval \<Rightarrow> prim + nat" where
  "ident (Prim p) = Inl p"
| "ident (Obj r _ _ _) = Inr r"

fun parts :: "jsval \<Rightarrow> jsval list" where
  "parts (Prim p) = []"
| "parts (Obj r tp (ArrayData xs) ps) = xs @ map snd ps"
| "parts (Obj r tp (MapData es) ps) = map snd es @ map snd ps"
| "parts (Obj r tp (SetData xs) ps) = map snd ps"
| "parts (Obj r tp d ps) = map snd ps"

fun distinct_members :: "jsval \<Rightarrow> bool" where
  "distinct_members (Obj r tp (MapData es) ps) = distinct (map (ident \<circ> fst) es)"
| "distinct_members (Obj r tp (SetData xs) ps) = distinct (map ident xs)"
| "distinct_members v = True"

lemma size_snd_member: "(k, v) \<in> set es \<Longrightarrow> size v \<le> size_list (size_prod f size) es"
  using size_list_member [of "(k, v)" es "size_prod f size"] by simp

lemma size_parts: "x \<in> set (parts v) \<Longrightarrow> size x < size v"
proof (induction v rule: parts.induct)
  case (2 r tp xs ps)
  then show ?case
    by (auto dest: size_list_member [where f = size] size_snd_member [where f = "\<lambda>x. 0"])
next
  case (3 r tp es ps)
  then show ?case
    by (auto dest: size_snd_member [where f = size] size_snd_member [where f = "\<lambda>x. 0"])
qed (auto dest: size_snd_member [where f = "\<lambda>x. 0"])

function well_formed :: "jsval \<Rightarrow> bool" where
  "well_formed v = (distinct_members v \<and> list_all well_formed (parts v))"
  by pat_completeness auto

termination
  by (relation "measure size") (auto simp: size_parts)


declare well_formed.simps [simp del]

section \<open>Values of the source's tests\<close>

text \<open>
  An \<open>Int8Array\<close> of the given integers, which it wraps to eight bits, a Map and an
  empty plain object with the given reference, each with the string its \<open>toString\<close>
  gives.
\<close>

definition show_int :: "int \<Rightarrow> string" where
  "show_int i = (if i < 0 then CHR ''-'' # show_nat (nat (- i)) else show_nat (nat i))"

fun join_commas :: "string list \<Rightarrow> string" where
  "join_commas [] = []"
| "join_commas [x] = x"
| "join_commas (x # y # zs) = x @ CHR '','' # join_commas (y # zs)"

definition to_int8 :: "int \<Rightarrow> int" where
  "to_int8 n = (n + 128) mod 256 - 128"

definition Int8Array :: "nat \<Rightarrow> int list \<Rightarrow> (string \<times> jsval) list \<Rightarrow> jsval" where
  "Int8Array r ns ps =
     Obj r (Str (join_commas (map (show_int \<circ> to_int8) ns)))
       (TypedArrayData ''Int8Array'' (map (\<lambda>n. Fin (of_int (to_int8 n))) ns)) ps"

definition Map_of :: "nat \<Rightarrow> (jsval \<times> jsval) list \<Rightarrow> jsval" where
  "Map_of r es = Obj r (Str ''[object Map]'') (MapData es) []"

definition empty_object :: "nat \<Rightarrow> jsval" where
  "empty_object r = Obj r (Str ''[object Object]'') (Plain ''Object'') []"

section \<open>Scalars: coercion, NaN and null\<close>

lemma equal_test_Number_entry [simp]: "equal_test ''Number'' = Some TNumber"
  by code_simp

lemma own_names_not_inherited [simp]:
  "''Number'' \<notin> set Object_prototype_names"
  "''Object'' \<notin> set Object_prototype_names"
  "''Map'' \<notin> set Object_prototype_names"
  "''Set'' \<notin> set Object_prototype_names"
  by (simp_all add: Object_prototype_names_def)

text \<open>
  C1, as stated, fails: with \<open>allow_type_coercion\<close> set, its default, the number 3 and
  the string "3" are loosely equal and \<open>equal\<close> accepts them, as the source's own list
  of test values expects.
\<close>

theorem equal_3_string_3_with_coercion:
  "equal \<lparr>allow_type_coercion = True, check_all_properties = False\<rparr>
     (Prim (Num (Fin 3))) (Prim (Str ''3'')) = Inr True"
  by code_simp

text \<open>
  C1, amended: when exactly one of \<open>a\<close> and \<open>b\<close> has the constructor name String (and
  neither is null or undefined, so that both have a constructor), \<open>equal a b\<close> is true
  exactly when \<open>allow_type_coercion\<close> is set and \<open>a == b\<close>; with the flag off it is
  false. One reference names one object, so identical values are the same value.
\<close>

theorem string_against_other_category:
  assumes "get_type a = Inr a_cons" and "get_type b = Inr b_cons"
    and "(a_cons = ''String'') \<noteq> (b_cons = ''String'')"
    and "strict_eq a b \<Longrightarrow> a = b"
  shows "equal c a b = Inr (allow_type_coercion c \<and> loose_eq a b)"
proof -
  from assms have "\<not> strict_eq a b" by auto
  moreover from assms have "a_cons \<noteq> b_cons" by auto
  ultimately show ?thesis using assms(1,2,3)
    by (auto simp: equal.simps)
qed

text \<open>C1, amended, at the number 3 and the string "3" with the flag off.\<close>

theorem string_against_other_category_witness:
  "equal \<lparr>allow_type_coercion = False, check_all_properties = False\<rparr>
     (Prim (Num (Fin 3))) (Prim (Str ''3'')) = Inr False"
  using string_against_other_category
    [of "Prim (Num (Fin 3))" "''Number''" "Prim (Str ''3'')" "''String''"
        "\<lparr>allow_type_coercion = False, check_all_properties = False\<rparr>"]
  by simp

text \<open>
  C2, as stated, fails in its second half: with \<open>allow_type_coercion\<close> off, \<open>equal(3, 3n)\<close>
  is still true, because neither side is a String and the guard lets every other loose
  equality through.
\<close>

theorem equal_3_3n_without_coercion:
  "equal \<lparr>allow_type_coercion = False, check_all_properties = False\<rparr>
     (Prim (Num (Fin 3))) (Prim (BigInt 3)) = Inr True"
  by (simp add: equal.simps loose_eq_prim_def same_type_def bool_to_number_def)

text \<open>
  C2, amended: a Number and a BigInt of the same integer value are equal under both
  settings of \<open>allow_type_coercion\<close> (and of \<open>check_all_properties\<close>).
\<close>

theorem numeric_promotion_ignores_flag:
  "equal c (Prim (Num (Fin (of_int i)))) (Prim (BigInt i)) = Inr True"
  by (simp add: equal.simps loose_eq_prim_def same_type_def bool_to_number_def)

text \<open>
  C3 fails on the code: \<open>get_type\<close> reads \<open>a.constructor\<close>, which null and undefined do
  not have, so comparing null with a value that is not identical to it raises a
  TypeError instead of returning a boolean.
\<close>

theorem null_against_number_raises:
  "equal c (Prim Null) (Prim (Num (Fin 3))) = Inl TypeError"
  by (simp add: equal.simps)

text \<open>
  More generally, null or undefined on either side raises unless the other side is
  identical to it; \<open>equal(null, undefined)\<close> raises too.
\<close>

lemma nullish_left_raises:
  "nullish p \<Longrightarrow> \<not> strict_eq (Prim p) b \<Longrightarrow> equal c (Prim p) b = Inl TypeError"
  by (auto simp: equal.simps nullish_def)

lemma get_type_raises: "get_type a = Inl e \<Longrightarrow> e = TypeError"
  by (cases a rule: get_type.cases) simp_all

lemma nullish_right_raises:
  "nullish q \<Longrightarrow> \<not> strict_eq a (Prim q) \<Longrightarrow> equal c a (Prim q) = Inl TypeError"
  by (auto simp: equal.simps nullish_def split: sum.splits dest: get_type_raises)

text \<open>
  C7: \<open>equal(NaN, NaN)\<close> and \<open>equal(Infinity, Infinity)\<close> are true and
  \<open>equal(Infinity, -Infinity)\<close> is false, under every configuration. Two Numbers that are
  strictly equal are accepted before the table is consulted; all others reach the Number
  test, which accepts the pair of NaNs and nothing else.
\<close>

theorem nan_and_infinities:
  "equal c (Prim (Num NaN)) (Prim (Num NaN)) = Inr True \<and>
   equal c (Prim (Num PosInf)) (Prim (Num PosInf)) = Inr True \<and>
   equal c (Prim (Num PosInf)) (Prim (Num NegInf)) = Inr False \<and>
   equal c (Prim (Num x)) (Prim (Num y)) =
     (if strict_eq_num x y then Inr True
      else equal_test_Number (Prim (Num x)) (Prim (Num y))) \<and>
   equal_test_Number (Prim (Num x)) (Prim (Num y)) = Inr (x = NaN \<and> y = NaN)"
  by (simp add: equal.simps loose_eq_prim_def same_type_def equal_test_Number_def)

section \<open>Typed arrays\<close>

text \<open>
  C4 fails on the code: the loop that should register the Array test under the nine
  typed-array names runs over the indices of the list of names (\<open>for ... in\<close>), so it
  registers it under "0" to "8" and no typed-array name is in the table. Typed arrays
  fall through to the Object test, which also counts extra named properties: two
  \<open>Int8Array\<close>s with the elements 1, 2, one of them carrying a property \<open>tag\<close>, are
  unequal with \<open>check_all_properties\<close> off, where the Array test accepts them.
\<close>

theorem typed_arrays_reach_object_test:
  "list_all (\<lambda>t. equal_test t = None) typed_array_names \<and>
   equal \<lparr>allow_type_coercion = True, check_all_properties = False\<rparr>
     (Int8Array 1 [1, 2] [(''tag'', Prim (Num (Fin 1)))]) (Int8Array 2 [1, 2] []) = Inr False \<and>
   equal_test_Array \<lparr>allow_type_coercion = True, check_all_properties = False\<rparr>
     (Int8Array 1 [1, 2] [(''tag'', Prim (Num (Fin 1)))]) (Int8Array 2 [1, 2] []) = Inr True"
  by code_simp

section \<open>Objects\<close>

lemma sorted_identical_iff: "sorted_identical a b \<longleftrightarrow> a = b"
proof -
  have "a = b \<longleftrightarrow> length a = length b \<and> (\<forall>i<length a. a ! i = b ! i)"
    by (rule list_eq_iff_nth_eq)
  then show ?thesis
    by (auto simp: sorted_identical_def list_all_iff)
qed


lemma equal_test_Object_entry [simp]: "equal_test ''Object'' = Some TObject"
  by code_simp









section \<open>Maps and Sets\<close>

lemma all_m_True_iff: "all_m f xs = Inr True \<longleftrightarrow> (\<forall>x\<in>set xs. f x = Inr True)"
  by (induction xs) (auto split: sum.splits bool.splits)

lemma indexOf_SomeD: "indexOf b x = Some i \<Longrightarrow> i < length b \<and> strict_eq (b ! i) x"
  by (induction b arbitrary: i) (auto split: if_splits)

lemma indexOf_None_iff: "indexOf b x = None \<longleftrightarrow> (\<forall>y\<in>set b. \<not> strict_eq y x)"
  by (induction b) auto

lemma mset_splice1: "i < length b \<Longrightarrow> add_mset (b ! i) (mset (splice1 b i)) = mset b"
proof -
  assume "i < length b"
  then have "b = take i b @ b ! i # drop (Suc i) b" by (rule id_take_nth_drop)
  then have "mset b = mset (take i b @ b ! i # drop (Suc i) b)" by simp
  then show ?thesis by (simp add: splice1_def)
qed

lemma length_splice1: "i < length b \<Longrightarrow> Suc (length (splice1 b i)) = length b"
  by (auto simp: splice1_def)

lemma unsorted_identical_matching:
  "unsorted_identical a b \<Longrightarrow>
     \<exists>ks rest. mset (ks @ rest) = mset b \<and> list_all2 (\<lambda>x y. strict_eq y x) a ks"
proof (induction a arbitrary: b)
  case Nil
  have "mset ([] @ b) = mset b \<and> list_all2 (\<lambda>x y. strict_eq y x) [] []" by simp
  then show ?case by blast
next
  case (Cons x a)
  then obtain i where i: "indexOf b x = Some i" and u: "unsorted_identical a (splice1 b i)"
    by (auto split: option.splits)
  from Cons.IH [OF u] obtain ks rest
    where m: "mset (ks @ rest) = mset (splice1 b i)"
      and l: "list_all2 (\<lambda>x y. strict_eq y x) a ks" by blast
  from i have lt: "i < length b" and s: "strict_eq (b ! i) x"
    by (auto dest: indexOf_SomeD)
  have "mset ((b ! i # ks) @ rest) = mset b"
    using m mset_splice1 [OF lt] by simp
  moreover have "list_all2 (\<lambda>x y. strict_eq y x) (x # a) (b ! i # ks)"
    using l s by simp
  ultimately show ?case by blast
qed

lemma unsorted_identical_same_length:
  assumes "unsorted_identical a b" and "length a = length b"
  shows "\<exists>ks. mset ks = mset b \<and> list_all2 (\<lambda>x y. strict_eq y x) a ks"
proof -
  from unsorted_identical_matching [OF assms(1)] obtain ks rest
    where m: "mset (ks @ rest) = mset b" and l: "list_all2 (\<lambda>x y. strict_eq y x) a ks"
    by blast
  from l have "length ks = length a" by (simp add: list_all2_lengthD)
  moreover from m have "length (ks @ rest) = length b" by (rule mset_eq_length)
  ultimately have "rest = []" using assms(2) by simp
  with m l show ?thesis by auto
qed

lemma unsorted_identical_unmatched:
  "x \<in> set a \<Longrightarrow> \<forall>y\<in>set b. \<not> strict_eq y x \<Longrightarrow> \<not> unsorted_identical a b"
proof (induction a arbitrary: b)
  case Nil
  then show ?case by simp
next
  case (Cons z a)
  show ?case
  proof (cases "indexOf b z")
    case None
    then show ?thesis by simp
  next
    case (Some i)
    have "set (splice1 b i) \<subseteq> set b"
      by (auto simp: splice1_def dest: in_set_takeD in_set_dropD)
    with Cons.prems(2) have n: "\<forall>y\<in>set (splice1 b i). \<not> strict_eq y x" by blast
    show ?thesis
    proof (cases "x = z")
      case True
      with Some Cons.prems(2) show ?thesis
        by (auto dest!: indexOf_SomeD)
    next
      case False
      with Cons.prems(1) have "x \<in> set a" by simp
      from Cons.IH [OF this n] Some show ?thesis by simp
    qed
  qed
qed

lemma strict_eq_num_NaN [simp]: "\<not> strict_eq_num x NaN"
  by (cases x) auto

lemma strict_eq_prim_NaN [simp]: "\<not> strict_eq_prim p (Num NaN)"
  by (cases p) auto

lemma strict_eq_NaN [simp]: "\<not> strict_eq y (Prim (Num NaN))"
  by (cases y) auto

lemma equal_test_Map_entry [simp]: "equal_test ''Map'' = Some TMap"
  by code_simp

lemma equal_test_Set_entry [simp]: "equal_test ''Set'' = Some TSet"
  by code_simp

lemma equal_distinct_Maps:
  "r \<noteq> r' \<Longrightarrow>
   equal c (Obj r tp (MapData ea) ps) (Obj r' tp' (MapData eb) qs) =
   equal_test_Map c (Obj r tp (MapData ea) ps) (Obj r' tp' (MapData eb) qs)"
  by (simp add: equal.simps)

text \<open>
  Two distinct Map objects compare equal only if they have the same number of
  entries, the keys of the second can be arranged so that each is identical (\<open>===\<close>:
  the same primitive, or the same reference) to the key of the first at its position,
  and the values under every key of the first compare equal recursively.
\<close>

lemma Maps_equal_only_if:
  assumes "r \<noteq> r'"
    and "equal c (Obj r tp (MapData ea) ps) (Obj r' tp' (MapData eb) qs) = Inr True"
  shows "length ea = length eb \<and>
    (\<exists>ks. mset ks = mset (map fst eb) \<and> list_all2 (\<lambda>x y. strict_eq y x) (map fst ea) ks) \<and>
    (\<forall>k\<in>set (map fst ea). equal c (Map_get ea k) (Map_get eb k) = Inr True)"
proof -
  from assms have t: "equal_test_Map c (Obj r tp (MapData ea) ps) (Obj r' tp' (MapData eb) qs) = Inr True"
    by (simp add: equal_distinct_Maps)
  then have len: "length ea = length eb"
    by (auto simp: equal_test_Map.simps split: if_splits)
  from t len have u: "unsorted_identical (map fst ea) (map fst eb)"
    by (auto simp: equal_test_Map.simps Let_def split: if_splits sum.splits bool.splits)
  from t len u have "all_m (\<lambda>k. equal c (Map_get ea k) (Map_get eb k)) (map fst ea) = Inr True"
    by (auto simp: equal_test_Map.simps Let_def split: if_splits sum.splits bool.splits)
  then have v: "\<forall>k\<in>set (map fst ea). equal c (Map_get ea k) (Map_get eb k) = Inr True"
    by (simp only: all_m_True_iff)
  from u len have "\<exists>ks. mset ks = mset (map fst eb) \<and> list_all2 (\<lambda>x y. strict_eq y x) (map fst ea) ks"
    by (intro unsorted_identical_same_length) simp_all
  with len v show ?thesis by blast
qed

text \<open>
  The Maps \<open>{a: 1, b: 2}\<close> and \<open>{b: 2, a: 1}\<close> of the source's tests, which are equal.
\<close>

lemma Maps_equal_only_if_instance:
  "equal \<lparr>allow_type_coercion = True, check_all_properties = False\<rparr>
     (Obj 1 (Str ''[object Map]'')
        (MapData [(Prim (Str ''a''), Prim (Num (Fin 1))), (Prim (Str ''b''), Prim (Num (Fin 2)))]) [])
     (Obj 2 (Str ''[object Map]'')
        (MapData [(Prim (Str ''b''), Prim (Num (Fin 2))), (Prim (Str ''a''), Prim (Num (Fin 1)))]) [])
     = Inr True \<and>
   (\<exists>ks. mset ks = mset [Prim (Str ''b''), Prim (Str ''a'')] \<and>
      list_all2 (\<lambda>x y. strict_eq y x) [Prim (Str ''a''), Prim (Str ''b'')] ks)"
proof -
  have h1: "(1::nat) \<noteq> 2" by simp
  have h2: "equal \<lparr>allow_type_coercion = True, check_all_properties = False\<rparr>
     (Obj 1 (Str ''[object Map]'')
        (MapData [(Prim (Str ''a''), Prim (Num (Fin 1))), (Prim (Str ''b''), Prim (Num (Fin 2)))]) [])
     (Obj 2 (Str ''[object Map]'')
        (MapData [(Prim (Str ''b''), Prim (Num (Fin 2))), (Prim (Str ''a''), Prim (Num (Fin 1)))]) [])
     = Inr True"
    by code_simp
  from Maps_equal_only_if [OF h1 h2] h2 show ?thesis by simp
qed

text \<open>
  The Maps of the source's tests whose keys are three distinct empty objects on each
  side: no key of the first is identical to a key of the second, so they are unequal.
\<close>

lemma Maps_keyed_by_distinct_objects:
  "equal \<lparr>allow_type_coercion = True, check_all_properties = False\<rparr>
     (Map_of 1 [(empty_object 11, Prim (Num (Fin 3))), (empty_object 12, Prim (Num (Fin 2))),
                (empty_object 13, Prim (Num (Fin 1)))])
     (Map_of 2 [(empty_object 21, Prim (Num (Fin 1))), (empty_object 22, Prim (Num (Fin 2))),
                (empty_object 23, Prim (Num (Fin 3)))])
     = Inr False"
  by code_simp

text \<open>
  C5 fails on the code at one point: two Maps whose keys are distinct empty objects
  should compare false, but with \<open>check_all_properties\<close> set the extra properties are
  compared first, and when one Map has \<open>x: null\<close> and the other \<open>x: 0\<close>, \<open>get_type\<close>
  raises on the null before the keys are looked at.
\<close>

theorem Maps_keyed_by_distinct_objects_raise:
  "equal \<lparr>allow_type_coercion = True, check_all_properties = True\<rparr>
     (Obj 1 (Str ''[object Map]'') (MapData [(empty_object 11, Prim (Num (Fin 1)))])
        [(''x'', Prim Null)])
     (Obj 2 (Str ''[object Map]'') (MapData [(empty_object 21, Prim (Num (Fin 1)))])
        [(''x'', Prim (Num (Fin 0)))])
     = Inl TypeError"
  by code_simp

text \<open>
  A Map that has NaN among its keys is equal to no other Map object, since \<open>indexOf\<close>
  never finds NaN: the result is false, unless \<open>check_all_properties\<close> is set and the
  Object test on the extra properties of two Maps of the same size raises, which is
  then the result. Two distinct Sets holding NaN are equal, since \<open>has\<close> finds it.
\<close>

lemma NaN_key_in_Map_and_Set:
  assumes "r \<noteq> r'" and "Prim (Num NaN) \<in> set (map fst ea)"
  shows "equal c (Obj r tp (MapData ea) ps) (Obj r' tp' (MapData eb) qs) =
     (if length ea = length eb \<and> check_all_properties c
      then (case equal_test_Object c (Obj r tp (MapData ea) ps) (Obj r' tp' (MapData eb) qs) of
              Inl e \<Rightarrow> Inl e | Inr t \<Rightarrow> Inr False)
      else Inr False) \<and>
    equal c (Obj r tp (SetData [Prim (Num NaN)]) []) (Obj r' tp' (SetData [Prim (Num NaN)]) []) =
      Inr True"
proof -
  have "\<not> unsorted_identical (map fst ea) (map fst eb)"
    using assms(2) by (rule unsorted_identical_unmatched) simp
  then have "equal_test_Map c (Obj r tp (MapData ea) ps) (Obj r' tp' (MapData eb) qs) =
     (if length ea = length eb \<and> check_all_properties c
      then (case equal_test_Object c (Obj r tp (MapData ea) ps) (Obj r' tp' (MapData eb) qs) of
              Inl e \<Rightarrow> Inl e | Inr t \<Rightarrow> Inr False)
      else Inr False)"
    by (auto simp: equal_test_Map.simps Let_def split: sum.splits bool.splits)
  moreover have "equal c (Obj r tp (SetData [Prim (Num NaN)]) []) (Obj r' tp' (SetData [Prim (Num NaN)]) []) =
      Inr True"
    using assms(1)
    by (simp add: equal.simps equal_test_Set.simps equal_test_Object.simps Set_has_def
        sorted_identical_def)
  ultimately show ?thesis using assms(1) by (simp add: equal_distinct_Maps)
qed


text \<open>Two Maps \<open>{NaN: 1}\<close> under the default configuration.\<close>

lemma NaN_key_in_Map_and_Set_instance:
  "equal \<lparr>allow_type_coercion = True, check_all_properties = False\<rparr>
     (Obj 1 (Str ''[object Map]'') (MapData [(Prim (Num NaN), Prim (Num (Fin 1)))]) [])
     (Obj 2 (Str ''[object Map]'') (MapData [(Prim (Num NaN), Prim (Num (Fin 1)))]) [])
     = Inr False"
  using NaN_key_in_Map_and_Set
    [of 1 2 "[(Prim (Num NaN), Prim (Num (Fin 1)))]"
        "\<lparr>allow_type_coercion = True, check_all_properties = False\<rparr>"
        "Str ''[object Map]''" "[]" "Str ''[object Map]''"
        "[(Prim (Num NaN), Prim (Num (Fin 1)))]" "[]"]
  by simp

text \<open>
  C10 fails on the code at one point: two distinct Maps \<open>{NaN: 1}\<close> should compare
  false, but with \<open>check_all_properties\<close> set and the extra properties \<open>x: null\<close> on one
  and \<open>x: 0\<close> on the other, \<open>get_type\<close> raises on the null before the keys are looked
  at.
\<close>

theorem NaN_keyed_Maps_raise:
  "equal \<lparr>allow_type_coercion = True, check_all_properties = True\<rparr>
     (Obj 1 (Str ''[object Map]'') (MapData [(Prim (Num NaN), Prim (Num (Fin 1)))])
        [(''x'', Prim Null)])
     (Obj 2 (Str ''[object Map]'') (MapData [(Prim (Num NaN), Prim (Num (Fin 1)))])
        [(''x'', Prim (Num (Fin 0)))])
     = Inl TypeError"
  by code_simp

section \<open>Symmetry\<close>

text \<open>
  C8 fails on the code: the Map test compares the values in the insertion order of its
  first argument, and \<open>get_type\<close> raises on null. For the Maps \<open>{p: 1, q: null}\<close> and
  \<open>{q: 0, p: 2}\<close>, \<open>equal\<close> one way round meets 1 against 2 first and returns false;
  the other way round it meets 0 against null first and raises.
\<close>

theorem Map_value_order_breaks_symmetry:
  "equal \<lparr>allow_type_coercion = True, check_all_properties = False\<rparr>
     (Map_of 1 [(Prim (Str ''p''), Prim (Num (Fin 1))), (Prim (Str ''q''), Prim Null)])
     (Map_of 2 [(Prim (Str ''q''), Prim (Num (Fin 0))), (Prim (Str ''p''), Prim (Num (Fin 2)))])
     = Inr False \<and>
   equal \<lparr>allow_type_coercion = True, check_all_properties = False\<rparr>
     (Map_of 2 [(Prim (Str ''q''), Prim (Num (Fin 0))), (Prim (Str ''p''), Prim (Num (Fin 2)))])
     (Map_of 1 [(Prim (Str ''p''), Prim (Num (Fin 1))), (Prim (Str ''q''), Prim Null)])
     = Inl TypeError"
  by code_simp

text \<open>
  Raising apart, the comparator is symmetric: on well-formed values, when \<open>equal a b\<close>
  and \<open>equal b a\<close> both return, they return the same boolean.
\<close>

lemma well_formed_parts: "well_formed v \<Longrightarrow> x \<in> set (parts v) \<Longrightarrow> well_formed x"
  by (subst (asm) well_formed.simps) (simp add: list_all_iff)

lemma well_formed_members: "well_formed v \<Longrightarrow> distinct_members v"
  by (subst (asm) well_formed.simps) simp

lemma well_formed_Prim [simp]: "well_formed (Prim p)"
  by (subst well_formed.simps) simp

lemma strict_eq_num_iff: "strict_eq_num x y \<longleftrightarrow> x = y \<and> x \<noteq> NaN"
  by (cases "(x, y)" rule: strict_eq_num.cases) auto

lemma strict_eq_prim_iff: "strict_eq_prim p q \<longleftrightarrow> p = q \<and> p \<noteq> Num NaN"
  by (cases "(p, q)" rule: strict_eq_prim.cases) (auto simp: strict_eq_num_iff)

lemma strict_eq_iff: "strict_eq x y \<longleftrightarrow> ident x = ident y \<and> x \<noteq> Prim (Num NaN)"
  by (cases "(x, y)" rule: strict_eq.cases) (auto simp: strict_eq_prim_iff)

lemma same_value_zero_iff: "same_value_zero x y \<longleftrightarrow> ident x = ident y"
  by (cases "(x, y)" rule: same_value_zero.cases) (auto simp: strict_eq_iff)

lemma ident_Prim: "ident x = Inl p \<longleftrightarrow> x = Prim p"
  by (cases x) auto

lemma strict_eq_sym: "strict_eq a b = strict_eq b a"
  by (auto simp: strict_eq_iff ident_Prim)

lemma loose_eq_mixed_sym: "loose_eq_mixed p q = loose_eq_mixed q p"
  by (cases "(p, q)" rule: loose_eq_mixed.cases) (auto simp: strict_eq_num_iff)

lemma same_type_sym: "same_type p q = same_type q p"
  by (cases p; cases q) (simp_all add: same_type_def)

lemma loose_eq_prim_sym: "loose_eq_prim p q = loose_eq_prim q p"
  by (auto simp: loose_eq_prim_def same_type_sym [of p q] loose_eq_mixed_sym strict_eq_prim_iff)

lemma loose_eq_sym: "loose_eq a b = loose_eq b a"
  by (cases "(a, b)" rule: loose_eq.cases) (auto simp: loose_eq_prim_sym)

lemma minus_num_zero_sym:
  "strict_eq_num (minus_num s t) (Fin 0) = strict_eq_num (minus_num t s) (Fin 0)"
  by (cases "(s, t)" rule: minus_num.cases) auto

lemma loose_eq_prim_Num [simp]: "loose_eq_prim (Num x) (Num y) = strict_eq_num x y"
  by (simp add: loose_eq_prim_def same_type_def)

lemma equal_test_Date_sym: "equal_test_Date a b = equal_test_Date b a"
  by (auto simp: equal_test_Date_def minus_num_zero_sym split: jsval.splits slots.splits)

lemma equal_test_Error_sym: "equal_test_Error a b = equal_test_Error b a"
  by (auto simp: equal_test_Error_def loose_eq_prim_sym split: jsval.splits slots.splits)

lemma flat_tests_sym:
  "equal_test_Number a b = equal_test_Number b a"
  "equal_test_String a b = equal_test_String b a"
  "equal_test_RegExp a b = equal_test_RegExp b a"
  "equal_test_Symbol a b = equal_test_Symbol b a"
  "equal_test_Function a b = equal_test_Function b a"
  by (auto simp: equal_test_Number_def equal_test_String_def
      equal_test_RegExp_def equal_test_Symbol_def equal_test_Function_def
      strict_eq_sym [of a b] split: jsval.splits prim.splits slots.splits)


lemma all_m_False_D: "all_m f xs = Inr False \<Longrightarrow> \<exists>x\<in>set xs. f x = Inr False"
  by (induction xs) (auto split: sum.splits bool.splits)

lemma all_m_returns: "all_m f xs = Inr t \<Longrightarrow> x \<in> set xs \<Longrightarrow> t \<Longrightarrow> f x = Inr True"
  by (simp add: all_m_True_iff)

lemma all_m_agree:
  assumes "all_m f xs = Inr t" and "all_m g ys = Inr u"
    and "\<And>x. x \<in> set xs \<Longrightarrow> f x = Inr False \<Longrightarrow> \<exists>y\<in>set ys. g y \<noteq> Inr True"
    and "\<And>y. y \<in> set ys \<Longrightarrow> g y = Inr False \<Longrightarrow> \<exists>x\<in>set xs. f x \<noteq> Inr True"
  shows "t = u"
proof (cases t)
  case True
  with assms(1) have all: "\<forall>x\<in>set xs. f x = Inr True" by (simp add: all_m_True_iff)
  show ?thesis
  proof (cases u)
    case False
    with assms(2) obtain y where "y \<in> set ys" "g y = Inr False"
      by (auto dest: all_m_False_D)
    from assms(4) [OF this] all show ?thesis by auto
  qed (use True in simp)
next
  case False
  with assms(1) obtain x where "x \<in> set xs" "f x = Inr False"
    by (auto dest: all_m_False_D)
  from assms(3) [OF this] obtain y where "y \<in> set ys" "g y \<noteq> Inr True" by auto
  with assms(2) have "\<not> u" by (auto simp: all_m_True_iff)
  with False show ?thesis by simp
qed

lemma indexOf_Some_iff:
  "(\<exists>i. indexOf b x = Some i) \<longleftrightarrow> x \<noteq> Prim (Num NaN) \<and> ident x \<in> ident ` set b"
proof -
  have "(\<exists>i. indexOf b x = Some i) \<longleftrightarrow> indexOf b x \<noteq> None" by auto
  also have "\<dots> \<longleftrightarrow> (\<exists>y\<in>set b. strict_eq y x)" by (simp add: indexOf_None_iff)
  also have "\<dots> \<longleftrightarrow> x \<noteq> Prim (Num NaN) \<and> ident x \<in> ident ` set b"
    by (auto simp: strict_eq_iff ident_Prim image_iff) metis
  finally show ?thesis .
qed

lemma set_splice1:
  assumes "i < length b"
  shows "set (splice1 b i) \<subseteq> set b"
    and "y \<in> set b \<Longrightarrow> f y \<noteq> f (b ! i) \<Longrightarrow> y \<in> set (splice1 b i)"
proof -
  from assms have b: "b = take i b @ b ! i # drop (Suc i) b" by (rule id_take_nth_drop)
  show "set (splice1 b i) \<subseteq> set b"
    by (auto simp: splice1_def dest: in_set_takeD in_set_dropD)
  assume "y \<in> set b" "f y \<noteq> f (b ! i)"
  then have "y \<in> set (take i b @ b ! i # drop (Suc i) b)" "y \<noteq> b ! i"
    using b by auto
  then show "y \<in> set (splice1 b i)" by (auto simp: splice1_def)
qed

lemma unsorted_identical_iff:
  "distinct (map ident a) \<Longrightarrow>
   unsorted_identical a b \<longleftrightarrow> Prim (Num NaN) \<notin> set a \<and> ident ` set a \<subseteq> ident ` set b"
proof (induction a arbitrary: b)
  case Nil
  then show ?case by simp
next
  case (Cons x a)
  show ?case
  proof (cases "indexOf b x")
    case None
    then have "\<not> (x \<noteq> Prim (Num NaN) \<and> ident x \<in> ident ` set b)"
      using indexOf_Some_iff [of b x] by simp
    with None show ?thesis by auto
  next
    case (Some i)
    then have x: "x \<noteq> Prim (Num NaN)" "ident x \<in> ident ` set b"
      using indexOf_Some_iff [of b x] by auto
    from Some have i: "i < length b" "ident (b ! i) = ident x"
      by (auto dest!: indexOf_SomeD simp: strict_eq_iff)
    from Cons.prems have d: "distinct (map ident a)" and n: "ident x \<notin> ident ` set a"
      by auto
    have "ident ` set a \<subseteq> ident ` set (splice1 b i) \<longleftrightarrow> ident ` set a \<subseteq> ident ` set b"
    proof
      assume "ident ` set a \<subseteq> ident ` set (splice1 b i)"
      with set_splice1(1) [OF i(1)] show "ident ` set a \<subseteq> ident ` set b" by blast
    next
      assume sub: "ident ` set a \<subseteq> ident ` set b"
      show "ident ` set a \<subseteq> ident ` set (splice1 b i)"
      proof
        fix k assume k: "k \<in> ident ` set a"
        with sub obtain y where y: "y \<in> set b" "ident y = k" by auto
        with k n i(2) have "ident y \<noteq> ident (b ! i)" by auto
        with y(1) have "y \<in> set (splice1 b i)" by (rule set_splice1(2) [OF i(1)])
        with y(2) show "k \<in> ident ` set (splice1 b i)" by auto
      qed
    qed
    with Cons.IH [OF d, of "splice1 b i"] Some x show ?thesis by auto
  qed
qed

lemma subset_sym_by_count:
  assumes "distinct (map f a)" and "distinct (map f b)" and "length a = length b"
  shows "f ` set a \<subseteq> f ` set b \<longleftrightarrow> f ` set b \<subseteq> f ` set a"
proof -
  have ca: "card (f ` set a) = length a"
    using assms(1) distinct_card [of "map f a"] by simp
  have cb: "card (f ` set b) = length b"
    using assms(2) distinct_card [of "map f b"] by simp
  have "f ` set a \<subseteq> f ` set b \<Longrightarrow> f ` set a = f ` set b"
    by (rule card_subset_eq) (simp_all add: ca cb assms(3))
  moreover have "f ` set b \<subseteq> f ` set a \<Longrightarrow> f ` set b = f ` set a"
    by (rule card_subset_eq) (simp_all add: ca cb assms(3))
  ultimately show ?thesis by blast
qed

lemma unsorted_identical_sym:
  assumes "distinct (map ident a)" and "distinct (map ident b)" and "length a = length b"
  shows "unsorted_identical a b = unsorted_identical b a"
proof -
  have s: "ident ` set a \<subseteq> ident ` set b \<longleftrightarrow> ident ` set b \<subseteq> ident ` set a"
    using assms by (rule subset_sym_by_count)
  have "Prim (Num NaN) \<in> set a \<longleftrightarrow> Prim (Num NaN) \<in> set b"
    if "ident ` set a = ident ` set b"
  proof -
    have "Prim (Num NaN) \<in> set c \<longleftrightarrow> Inl (Num NaN) \<in> ident ` set c" for c
    proof
      assume "Prim (Num NaN) \<in> set c"
      then have "ident (Prim (Num NaN)) \<in> ident ` set c" by (rule imageI)
      then show "Inl (Num NaN) \<in> ident ` set c" by simp
    next
      assume "Inl (Num NaN) \<in> ident ` set c"
      then obtain x where "x \<in> set c" "ident x = Inl (Num NaN)" by auto
      then show "Prim (Num NaN) \<in> set c" by (simp add: ident_Prim)
    qed
    with that show ?thesis by simp
  qed
  with s show ?thesis
    unfolding unsorted_identical_iff [OF assms(1)] unsorted_identical_iff [OF assms(2)]
    by blast
qed

lemma Set_has_iff: "Set_has ys x \<longleftrightarrow> ident x \<in> ident ` set ys"
proof -
  have "Set_has ys x \<longleftrightarrow> (\<exists>y\<in>set ys. ident y = ident x)"
    by (simp add: Set_has_def list_ex_iff same_value_zero_iff)
  also have "\<dots> \<longleftrightarrow> ident x \<in> ident ` set ys"
    by (metis image_iff)
  finally show ?thesis .
qed

lemma Set_test_sym:
  assumes "distinct (map ident xs)" and "distinct (map ident ys)" and "length xs = length ys"
  shows "list_all (Set_has ys) xs = list_all (Set_has xs) ys"
proof -
  have "list_all (Set_has ys) xs \<longleftrightarrow> ident ` set xs \<subseteq> ident ` set ys" for xs ys
    by (auto simp: list_all_iff Set_has_iff)
  with subset_sym_by_count [OF assms] show ?thesis by simp
qed

lemma Map_get_ident: "ident k = ident k' \<Longrightarrow> Map_get es k = Map_get es k'"
  by (induction es) (auto simp: same_value_zero_iff)


lemma well_formed_elements:
  "well_formed a \<Longrightarrow> elements a = Some xs \<Longrightarrow> i < length xs \<Longrightarrow> well_formed (xs ! i)"
  by (induction a rule: elements.induct) (auto intro: well_formed_parts)

lemma own_props_parts:
  "(k, v) \<in> set (own_props a) \<Longrightarrow> v \<in> set (parts a) \<or> (\<exists>p. v = Prim p)"
  by (induction a rule: own_props.induct)
     (auto simp: indexed_def dest!: set_zip_rightD intro: rev_image_eqI)

lemma well_formed_get_prop: "well_formed a \<Longrightarrow> well_formed (get_prop a k)"
  by (auto simp: get_prop_def split: option.splits
      dest!: map_of_SomeD own_props_parts intro: well_formed_parts)

lemma Map_get_cases: "Map_get es k = Prim Undefined \<or> Map_get es k \<in> snd ` set es"
  by (induction es) force+

lemma well_formed_Map_get:
  "well_formed a \<Longrightarrow> Map_entries a = Some es \<Longrightarrow> well_formed (Map_get es k)"
proof (induction a rule: Map_entries.induct)
  case (1 r tp es' ps)
  then have es: "es' = es" by simp
  from Map_get_cases [of es k] show ?case
  proof
    assume "Map_get es k = Prim Undefined"
    then show ?thesis by simp
  next
    assume "Map_get es k \<in> snd ` set es"
    then have "Map_get es k \<in> set (parts (Obj r tp (MapData es') ps))"
      by (simp add: es)
    with 1(1) show ?thesis by (rule well_formed_parts)
  qed
qed simp_all

lemma well_formed_Map_keys:
  "well_formed a \<Longrightarrow> Map_entries a = Some es \<Longrightarrow> distinct (map ident (map fst es))"
  by (induction a rule: Map_entries.induct) (auto dest: well_formed_members)

lemma well_formed_Set_items:
  "well_formed a \<Longrightarrow> Set_items a = Some xs \<Longrightarrow> distinct (map ident xs)"
  by (induction a rule: Set_items.induct) (auto dest: well_formed_members)


lemma equal_sym_all:
  "well_formed a \<Longrightarrow> well_formed b \<Longrightarrow> equal c a b = Inr t \<Longrightarrow> equal c b a = Inr u \<Longrightarrow> t = u"
  "well_formed a \<Longrightarrow> well_formed b \<Longrightarrow>
     equal_test_Array c a b = Inr t \<Longrightarrow> equal_test_Array c b a = Inr u \<Longrightarrow> t = u"
  "well_formed a \<Longrightarrow> well_formed b \<Longrightarrow>
     equal_test_Object c a b = Inr t \<Longrightarrow> equal_test_Object c b a = Inr u \<Longrightarrow> t = u"
  "well_formed a \<Longrightarrow> well_formed b \<Longrightarrow>
     equal_test_Map c a b = Inr t \<Longrightarrow> equal_test_Map c b a = Inr u \<Longrightarrow> t = u"
  "well_formed a \<Longrightarrow> well_formed b \<Longrightarrow>
     equal_test_Set c a b = Inr t \<Longrightarrow> equal_test_Set c b a = Inr u \<Longrightarrow> t = u"
proof (induction c a b and c a b and c a b and c a b and c a b arbitrary: t u and t u and t u and t u and t u
    rule: equal_equal_test_Array_equal_test_Object_equal_test_Map_equal_test_Set.induct)
  case (1 c a b)
  note wf = "1.prems"(1,2) and ab = "1.prems"(3) and ba = "1.prems"(4)
  show ?case
  proof (cases "strict_eq a b")
    case True
    with ab ba show ?thesis
      by (simp add: equal.simps [of c a b] equal.simps [of c b a] strict_eq_sym [of b a])
  next
    case ns: False
    from ab ns obtain ca where ca: "get_type a = Inr ca"
      by (cases "get_type a") (simp_all add: equal.simps [of c a b])
    from ab ns ca obtain cb where cb: "get_type b = Inr cb"
      by (cases "get_type b") (simp_all add: equal.simps [of c a b])
    show ?thesis
    proof (cases "loose_eq a b \<and> (allow_type_coercion c \<or> ca = cb \<or>
        (ca \<noteq> ''String'' \<and> cb \<noteq> ''String''))")
      case True
      then have "loose_eq b a \<and> (allow_type_coercion c \<or> cb = ca \<or>
        (cb \<noteq> ''String'' \<and> ca \<noteq> ''String''))"
        by (auto simp: loose_eq_sym [of b a])
      with True ab ba ns ca cb show ?thesis
        by (simp add: equal.simps [of c a b] equal.simps [of c b a] strict_eq_sym [of b a])
    next
      case ng: False
      then have ng': "\<not> (loose_eq b a \<and> (allow_type_coercion c \<or> cb = ca \<or>
        (cb \<noteq> ''String'' \<and> ca \<noteq> ''String'')))"
        by (auto simp: loose_eq_sym [of b a])
      show ?thesis
      proof (cases "ca = cb")
        case False
        with ng ng' ab ba ns ca cb show ?thesis
          by (auto simp: equal.simps [of c a b] equal.simps [of c b a] strict_eq_sym [of b a]
              split: if_splits)
      next
        case same: True
        note ih = "1.IH" [OF ns ca cb ng]
        from ng same have nl: "\<not> loose_eq a b" by simp
        then have nl': "\<not> loose_eq b a" by (simp add: loose_eq_sym [of b a])
        from ns have ns': "\<not> strict_eq b a" by (simp add: strict_eq_sym [of b a])
        have ni: "ca \<notin> set Object_prototype_names"
          using ab ns nl ca cb same by (auto simp: equal.simps [of c a b])
        have eab: "equal c a b =
          (case equal_test ca of
              Some TNumber \<Rightarrow> equal_test_Number a b
            | Some TString \<Rightarrow> equal_test_String a b
            | Some TDate \<Rightarrow> equal_test_Date a b
            | Some TRegExp \<Rightarrow> equal_test_RegExp a b
            | Some TArray \<Rightarrow> equal_test_Array c a b
            | Some TObject \<Rightarrow> equal_test_Object c a b
            | Some TMap \<Rightarrow> equal_test_Map c a b
            | Some TSet \<Rightarrow> equal_test_Set c a b
            | Some TSymbol \<Rightarrow> equal_test_Symbol a b
            | Some TFunction \<Rightarrow> equal_test_Function a b
            | Some TError \<Rightarrow> equal_test_Error a b
            | None \<Rightarrow> equal_test_Object c a b)"
          unfolding equal.simps [of c a b] using ns nl ca cb same ni by simp
        have eba: "equal c b a =
          (case equal_test ca of
              Some TNumber \<Rightarrow> equal_test_Number b a
            | Some TString \<Rightarrow> equal_test_String b a
            | Some TDate \<Rightarrow> equal_test_Date b a
            | Some TRegExp \<Rightarrow> equal_test_RegExp b a
            | Some TArray \<Rightarrow> equal_test_Array c b a
            | Some TObject \<Rightarrow> equal_test_Object c b a
            | Some TMap \<Rightarrow> equal_test_Map c b a
            | Some TSet \<Rightarrow> equal_test_Set c b a
            | Some TSymbol \<Rightarrow> equal_test_Symbol b a
            | Some TFunction \<Rightarrow> equal_test_Function b a
            | Some TError \<Rightarrow> equal_test_Error b a
            | None \<Rightarrow> equal_test_Object c b a)"
          unfolding equal.simps [of c b a] using ns' nl' ca cb same ni by simp
        show ?thesis
        proof (cases "equal_test ca")
          case None
          with ab ba eab eba
          have "equal_test_Object c a b = Inr t" "equal_test_Object c b a = Inr u"
            by simp_all
          with ih(1) [OF _ ni None wf] same show ?thesis by simp
        next
          case (Some ct)
          show ?thesis
          proof (cases ct)
            case TArray
            with ab ba eab eba Some
            have "equal_test_Array c a b = Inr t" "equal_test_Array c b a = Inr u"
              by simp_all
            with ih(2) [OF _ ni Some TArray wf] same show ?thesis by simp
          next
            case TObject
            with ab ba eab eba Some
            have "equal_test_Object c a b = Inr t" "equal_test_Object c b a = Inr u"
              by simp_all
            with ih(3) [OF _ ni Some TObject wf] same show ?thesis by simp
          next
            case TMap
            with ab ba eab eba Some
            have "equal_test_Map c a b = Inr t" "equal_test_Map c b a = Inr u"
              by simp_all
            with ih(4) [OF _ ni Some TMap wf] same show ?thesis by simp
          next
            case TSet
            with ab ba eab eba Some
            have "equal_test_Set c a b = Inr t" "equal_test_Set c b a = Inr u"
              by simp_all
            with ih(5) [OF _ ni Some TSet wf] same show ?thesis by simp
          next
            case TNumber
            with ab ba eab eba Some show ?thesis
              by (simp add: flat_tests_sym(1) [of b a])
          next
            case TString
            with ab ba eab eba Some show ?thesis
              by (simp add: equal_test_String_def)
          next
            case TDate
            with ab ba eab eba Some show ?thesis
              by (simp add: equal_test_Date_sym [of b a])
          next
            case TRegExp
            with ab ba eab eba Some show ?thesis
              by (simp add: flat_tests_sym(3) [of b a])
          next
            case TSymbol
            with ab ba eab eba Some show ?thesis
              by (simp add: flat_tests_sym(4) [of b a])
          next
            case TFunction
            with ab ba eab eba Some show ?thesis
              by (simp add: flat_tests_sym(5) [of b a])
          next
            case TError
            with ab ba eab eba Some show ?thesis
              by (simp add: equal_test_Error_sym [of b a])
          qed
        qed
      qed
    qed
  qed
next
  case (2 c a b)
  note wf = "2.prems"(1,2) and ab = "2.prems"(3) and ba = "2.prems"(4)
  from ab obtain xs where xs: "elements a = Some xs"
    by (cases "elements a") (simp_all add: equal_test_Array.simps)
  from ab xs obtain ys where ys: "elements b = Some ys"
    by (cases "elements b") (simp_all add: equal_test_Array.simps)
  show ?case
  proof (cases "length xs = length ys")
    case False
    with ab ba xs ys show ?thesis
      by (auto simp: equal_test_Array.simps)
  next
    case len: True
    show ?thesis
    proof (cases "check_all_properties c")
      case True
      with ab ba xs ys len
      have "equal_test_Object c a b = Inr t" "equal_test_Object c b a = Inr u"
        by (simp_all add: equal_test_Array.simps)
      with "2.IH"(1) [OF xs ys _ True wf] len show ?thesis by simp
    next
      case False
      with ab ba xs ys len
      have f: "all_m (\<lambda>i. equal c (xs ! i) (ys ! i)) [0..<length xs] = Inr t"
        and g: "all_m (\<lambda>i. equal c (ys ! i) (xs ! i)) [0..<length xs] = Inr u"
        by (simp_all add: equal_test_Array.simps)
      have step: "equal c (xs ! i) (ys ! i) = Inr v \<Longrightarrow> equal c (ys ! i) (xs ! i) = Inr w \<Longrightarrow> v = w"
        if "i \<in> set [0..<length xs]" for i v w
        using that len wf xs ys
        by (intro "2.IH"(2) [OF xs ys _ False that])
           (simp_all add: well_formed_elements)
      from f g show ?thesis
      proof (rule all_m_agree)
        fix i assume "i \<in> set [0..<length xs]" "equal c (xs ! i) (ys ! i) = Inr False"
        with step [of i False True] have "equal c (ys ! i) (xs ! i) \<noteq> Inr True" by auto
        with \<open>i \<in> set [0..<length xs]\<close>
        show "\<exists>j\<in>set [0..<length xs]. equal c (ys ! j) (xs ! j) \<noteq> Inr True" by blast
      next
        fix i assume "i \<in> set [0..<length xs]" "equal c (ys ! i) (xs ! i) = Inr False"
        with step [of i True False] have "equal c (xs ! i) (ys ! i) \<noteq> Inr True" by auto
        with \<open>i \<in> set [0..<length xs]\<close>
        show "\<exists>j\<in>set [0..<length xs]. equal c (xs ! j) (ys ! j) \<noteq> Inr True" by blast
      qed
    qed
  qed
next
  case (3 c a b)
  note wf = "3.prems"(1,2) and ab = "3.prems"(3) and ba = "3.prems"(4)
  from ab obtain ka where ka: "Object_keys a = Inr ka"
    by (cases "Object_keys a") (simp_all add: equal_test_Object.simps)
  from ab ka obtain kb where kb: "Object_keys b = Inr kb"
    by (cases "Object_keys b") (simp_all add: equal_test_Object.simps)
  show ?case
  proof (cases "sort ka = sort kb")
    case False
    with ab ba ka kb show ?thesis
      by (auto simp: equal_test_Object.simps sorted_identical_iff)
  next
    case same: True
    with ab ba ka kb
    have f: "all_m (\<lambda>k. equal c (get_prop a k) (get_prop b k)) (sort ka) = Inr t"
      and g: "all_m (\<lambda>k. equal c (get_prop b k) (get_prop a k)) (sort ka) = Inr u"
      by (simp_all add: equal_test_Object.simps sorted_identical_iff)
    have step: "equal c (get_prop a k) (get_prop b k) = Inr v \<Longrightarrow>
        equal c (get_prop b k) (get_prop a k) = Inr w \<Longrightarrow> v = w"
      if "k \<in> set (sort ka)" for k v w
      using that same wf
      by (intro "3.IH" [OF ka kb refl refl _ that])
         (simp_all add: well_formed_get_prop sorted_identical_iff)
    from f g show ?thesis
    proof (rule all_m_agree)
      fix k assume k: "k \<in> set (sort ka)" "equal c (get_prop a k) (get_prop b k) = Inr False"
      with step [of k False True] have "equal c (get_prop b k) (get_prop a k) \<noteq> Inr True" by auto
      with k(1) show "\<exists>j\<in>set (sort ka). equal c (get_prop b j) (get_prop a j) \<noteq> Inr True"
        by blast
    next
      fix k assume k: "k \<in> set (sort ka)" "equal c (get_prop b k) (get_prop a k) = Inr False"
      with step [of k True False] have "equal c (get_prop a k) (get_prop b k) \<noteq> Inr True" by auto
      with k(1) show "\<exists>j\<in>set (sort ka). equal c (get_prop a j) (get_prop b j) \<noteq> Inr True"
        by blast
    qed
  qed
next
  case (4 c a b)
  note wf = "4.prems"(1,2) and ab = "4.prems"(3) and ba = "4.prems"(4)
  from ab obtain ea where ea: "Map_entries a = Some ea"
    by (cases "Map_entries a") (simp_all add: equal_test_Map.simps)
  from ab ea obtain eb where eb: "Map_entries b = Some eb"
    by (cases "Map_entries b") (simp_all add: equal_test_Map.simps)
  show ?case
  proof (cases "length ea = length eb")
    case False
    with ab ba ea eb show ?thesis
      by (auto simp: equal_test_Map.simps)
  next
    case len: True
    define gab where "gab = (if check_all_properties c then equal_test_Object c a b else Inr True)"
    define gba where "gba = (if check_all_properties c then equal_test_Object c b a else Inr True)"
    define U where "U = unsorted_identical (map fst ea) (map fst eb)"
    have da: "distinct (map ident (map fst ea))" and db: "distinct (map ident (map fst eb))"
      using wf ea eb by (simp_all only: well_formed_Map_keys)
    have U': "unsorted_identical (map fst eb) (map fst ea) = U"
      unfolding U_def using db da len by (intro unsorted_identical_sym) simp_all
    have eab: "equal_test_Map c a b =
        (case gab of Inl e \<Rightarrow> Inl e | Inr False \<Rightarrow> Inr False
         | Inr True \<Rightarrow> if \<not> U then Inr False
             else all_m (\<lambda>k. equal c (Map_get ea k) (Map_get eb k)) (map fst ea))"
      by (simp add: equal_test_Map.simps ea eb len Let_def flip: gab_def U_def
          split: sum.splits bool.splits)
    have eba: "equal_test_Map c b a =
        (case gba of Inl e \<Rightarrow> Inl e | Inr False \<Rightarrow> Inr False
         | Inr True \<Rightarrow> if \<not> U then Inr False
             else all_m (\<lambda>k. equal c (Map_get eb k) (Map_get ea k)) (map fst eb))"
      by (simp add: equal_test_Map.simps ea eb len U' Let_def flip: gba_def
          split: sum.splits bool.splits)
    from ab eab obtain ta where ta: "gab = Inr ta" by (cases gab) simp_all
    from ba eba obtain tb where tb: "gba = Inr tb" by (cases gba) simp_all
    have "ta = tb"
    proof (cases "check_all_properties c")
      case True
      with ta tb have "equal_test_Object c a b = Inr ta" "equal_test_Object c b a = Inr tb"
        by (simp_all add: gab_def gba_def)
      with "4.IH"(1) [OF ea eb _ True wf] len show ?thesis by simp
    next
      case False
      with ta tb show ?thesis by (simp add: gab_def gba_def)
    qed
    show ?thesis
    proof (cases "ta \<and> U")
      case False
      have "equal_test_Map c a b = Inr False"
        using False ta by (cases ta) (simp_all add: eab)
      moreover have "equal_test_Map c b a = Inr False"
        using False tb \<open>ta = tb\<close> by (cases tb) (simp_all add: eba)
      ultimately show ?thesis using ab ba by simp
    next
      case True
      with ab ba eab eba ta tb \<open>ta = tb\<close>
      have f: "all_m (\<lambda>k. equal c (Map_get ea k) (Map_get eb k)) (map fst ea) = Inr t"
        and g: "all_m (\<lambda>k. equal c (Map_get eb k) (Map_get ea k)) (map fst eb) = Inr u"
        by simp_all
      from True have "unsorted_identical (map fst ea) (map fst eb)"
        and "unsorted_identical (map fst eb) (map fst ea)"
        by (simp_all add: U' U_def)
      then have sub: "ident ` set (map fst ea) \<subseteq> ident ` set (map fst eb)"
        and sup: "ident ` set (map fst eb) \<subseteq> ident ` set (map fst ea)"
        by (simp_all only: unsorted_identical_iff [OF da] unsorted_identical_iff [OF db])
      have step: "equal c (Map_get ea k) (Map_get eb k) = Inr v \<Longrightarrow>
          equal c (Map_get eb k) (Map_get ea k) = Inr w \<Longrightarrow> v = w"
        if "k \<in> set (map fst ea)" for k v w
        using that True ta wf ea eb
        by (intro "4.IH"(2) [OF ea eb _ _ refl refl _ that])
           (simp_all add: well_formed_Map_get gab_def U_def len)
      from f g show ?thesis
      proof (rule all_m_agree)
        fix k assume k: "k \<in> set (map fst ea)"
          "equal c (Map_get ea k) (Map_get eb k) = Inr False"
        with step [of k False True]
        have n: "equal c (Map_get eb k) (Map_get ea k) \<noteq> Inr True" by auto
        from k(1) have "ident k \<in> ident ` set (map fst ea)" by (rule imageI)
        with sub have "ident k \<in> ident ` set (map fst eb)" by (rule subsetD)
        then obtain k' where "ident k = ident k'" and "k' \<in> set (map fst eb)"
          by (rule imageE)
        then have k': "k' \<in> set (map fst eb)" "ident k' = ident k" by simp_all
        from n have "equal c (Map_get eb k') (Map_get ea k') \<noteq> Inr True"
          by (simp add: Map_get_ident [OF k'(2)])
        with k'(1)
        show "\<exists>j\<in>set (map fst eb). equal c (Map_get eb j) (Map_get ea j) \<noteq> Inr True"
          by blast
      next
        fix k' assume k': "k' \<in> set (map fst eb)"
          "equal c (Map_get eb k') (Map_get ea k') = Inr False"
        from k'(1) have "ident k' \<in> ident ` set (map fst eb)" by (rule imageI)
        with sup have "ident k' \<in> ident ` set (map fst ea)" by (rule subsetD)
        then obtain k where "ident k' = ident k" and "k \<in> set (map fst ea)"
          by (rule imageE)
        then have k: "k \<in> set (map fst ea)" "ident k = ident k'" by simp_all
        from k'(2) have "equal c (Map_get eb k) (Map_get ea k) = Inr False"
          by (simp add: Map_get_ident [OF k(2)])
        with step [OF k(1), of True False]
        have "equal c (Map_get ea k) (Map_get eb k) \<noteq> Inr True" by auto
        with k(1)
        show "\<exists>j\<in>set (map fst ea). equal c (Map_get ea j) (Map_get eb j) \<noteq> Inr True"
          by blast
      qed
    qed
  qed
next
  case (5 c a b)
  note wf = "5.prems"(1,2) and ab = "5.prems"(3) and ba = "5.prems"(4)
  from ab obtain xs where xs: "Set_items a = Some xs"
    by (cases "Set_items a") (simp_all add: equal_test_Set.simps)
  from ab xs obtain ys where ys: "Set_items b = Some ys"
    by (cases "Set_items b") (simp_all add: equal_test_Set.simps)
  show ?case
  proof (cases "length xs = length ys")
    case False
    with ab ba xs ys show ?thesis
      by (auto simp: equal_test_Set.simps)
  next
    case len: True
    define gab where "gab = (if check_all_properties c then equal_test_Object c a b else Inr True)"
    define gba where "gba = (if check_all_properties c then equal_test_Object c b a else Inr True)"
    have dx: "distinct (map ident xs)" and dy: "distinct (map ident ys)"
      using wf xs ys by (simp_all only: well_formed_Set_items)
    have S: "list_all (Set_has xs) ys = list_all (Set_has ys) xs"
      using dy dx len by (intro Set_test_sym) simp_all
    have eab: "equal_test_Set c a b =
        (case gab of Inl e \<Rightarrow> Inl e | Inr False \<Rightarrow> Inr False
         | Inr True \<Rightarrow> Inr (list_all (Set_has ys) xs))"
      by (simp add: equal_test_Set.simps xs ys len flip: gab_def)
    have eba: "equal_test_Set c b a =
        (case gba of Inl e \<Rightarrow> Inl e | Inr False \<Rightarrow> Inr False
         | Inr True \<Rightarrow> Inr (list_all (Set_has ys) xs))"
      by (simp add: equal_test_Set.simps xs ys len S flip: gba_def
          split: sum.splits bool.splits)
    from ab eab obtain ta where ta: "gab = Inr ta" by (cases gab) simp_all
    from ba eba obtain tb where tb: "gba = Inr tb" by (cases gba) simp_all
    have "ta = tb"
    proof (cases "check_all_properties c")
      case True
      with ta tb have "equal_test_Object c a b = Inr ta" "equal_test_Object c b a = Inr tb"
        by (simp_all add: gab_def gba_def)
      with "5.IH" [OF xs ys _ True wf] len show ?thesis by simp
    next
      case False
      with ta tb show ?thesis by (simp add: gab_def gba_def)
    qed
    with ab ba eab eba ta tb show ?thesis
      by (cases tb) auto
  qed
qed

lemma equal_symmetric_when_both_return:
  "well_formed a \<Longrightarrow> well_formed b \<Longrightarrow> equal c a b = Inr t \<Longrightarrow> equal c b a = Inr u \<Longrightarrow> t = u"
  by (rule equal_sym_all(1))

section \<open>Maps, entry by entry\<close>

text \<open>
  A Map holds no two keys that SameValueZero identifies. When two distinct such Maps
  compare equal, the entries of the second can be arranged so that, position by
  position, the key is identical to the key of the first and the two values compare
  equal.
\<close>

lemma Map_get_distinct:
  "distinct (map (ident \<circ> fst) es) \<Longrightarrow> (k, v) \<in> set es \<Longrightarrow> Map_get es k = v"
proof (induction es)
  case Nil
  then show ?case by simp
next
  case (Cons e es)
  obtain k0 v0 where e: "e = (k0, v0)" by (cases e)
  show ?case
  proof (cases "(k, v) = e")
    case True
    with e show ?thesis by (simp add: same_value_zero_iff)
  next
    case False
    with Cons.prems have in_es: "(k, v) \<in> set es" by simp
    then have "ident (fst (k, v)) \<in> (\<lambda>x. ident (fst x)) ` set es" by (rule imageI)
    then have i: "ident k \<in> (\<lambda>x. ident (fst x)) ` set es" by simp
    from Cons.prems(1) e have n: "ident k0 \<notin> (\<lambda>x. ident (fst x)) ` set es"
      by (simp add: comp_def)
    have "ident k0 \<noteq> ident k"
    proof
      assume "ident k0 = ident k"
      with i n show False by simp
    qed
    with e Cons.IH in_es Cons.prems(1) show ?thesis
      by (simp add: same_value_zero_iff)
  qed
qed

lemma Maps_equal_entry_by_entry:
  assumes "r \<noteq> r'"
    and "distinct (map (ident \<circ> fst) ea)" and "distinct (map (ident \<circ> fst) eb)"
    and "equal c (Obj r tp (MapData ea) ps) (Obj r' tp' (MapData eb) qs) = Inr True"
  shows "\<exists>es. mset es = mset eb \<and>
    list_all2 (\<lambda>(k, v) (k', v'). strict_eq k' k \<and> equal c v v' = Inr True) ea es"
proof -
  from Maps_equal_only_if [OF assms(1,4)] obtain ks
    where ks: "mset ks = mset (map fst eb)"
      and ids: "list_all2 (\<lambda>x y. strict_eq y x) (map fst ea) ks"
      and vs: "\<forall>k\<in>set (map fst ea). equal c (Map_get ea k) (Map_get eb k) = Inr True"
    by blast
  define g where "g k' = (k', Map_get eb k')" for k'
  have geb: "map g (map fst eb) = eb"
  proof -
    have "map (g \<circ> fst) eb = map (\<lambda>e. e) eb"
    proof (rule map_cong [OF refl])
      fix e assume "e \<in> set eb"
      then have "Map_get eb (fst e) = snd e"
        using Map_get_distinct [OF assms(3), of "fst e" "snd e"] by simp
      then show "(g \<circ> fst) e = e" by (simp add: g_def)
    qed
    then show ?thesis by simp
  qed
  have "mset (map g ks) = image_mset g (mset ks)" by (simp only: mset_map)
  also have "\<dots> = image_mset g (mset (map fst eb))" by (simp only: ks)
  also have "\<dots> = mset (map g (map fst eb))" by (simp only: mset_map)
  also have "\<dots> = mset eb" by (simp only: geb)
  finally have m: "mset (map g ks) = mset eb" .
  from ids have "list_all2 (\<lambda>e k'. strict_eq k' (fst e)) ea ks"
    by (simp add: list_all2_map1)
  then have "list_all2 (\<lambda>e k'. (case e of (k, v) \<Rightarrow> \<lambda>(k', v').
      strict_eq k' k \<and> equal c v v' = Inr True) (g k')) ea ks"
  proof (rule list.rel_mono_strong)
    fix e k' assume e: "e \<in> set ea" and s: "strict_eq k' (fst e)"
    obtain k v where kv: "e = (k, v)" by (cases e)
    from e kv have a: "Map_get ea k = v"
      using Map_get_distinct [OF assms(2), of k v] by simp
    from s kv have "ident k' = ident k" by (simp add: strict_eq_iff)
    then have b: "Map_get eb k' = Map_get eb k" by (rule Map_get_ident)
    from e kv have "k \<in> set (map fst ea)" by force
    with vs have "equal c (Map_get ea k) (Map_get eb k) = Inr True" by blast
    with a b s kv
    show "(case e of (k, v) \<Rightarrow> \<lambda>(k', v'). strict_eq k' k \<and> equal c v v' = Inr True) (g k')"
      by (simp add: g_def)
  qed
  then have "list_all2 (\<lambda>(k, v) (k', v'). strict_eq k' k \<and> equal c v v' = Inr True)
      ea (map g ks)"
    by (simp add: list_all2_map2)
  with m show ?thesis by blast
qed

end
